theory Spec2Isabelle
  imports Main
begin

section \<open>The Modelfile parser: parser/parser.go\<close>

text \<open>
  \<open>Parse\<close> reads its input one rune at a time (\<open>bufio.Reader.ReadRune\<close>) until the
  reader reports end of input. The input is modelled as the finite list of runes the
  reader delivers before \<open>io.EOF\<close>; a reader that fails with another error makes
  \<open>Parse\<close> return that error at once and is outside this model. A Go \<open>rune\<close> is an
  \<open>int32\<close> code point; no arithmetic is done on runes, only comparisons, so a rune is
  an \<open>int\<close>. Go strings and \<open>bytes.Buffer\<close> contents are kept as the list of runes
  written into them (Go stores the UTF-8 encoding of the same runes).
\<close>

type_synonym rune = int

abbreviation (input) rn :: "char \<Rightarrow> rune" where
  "rn c \<equiv> of_char c"

definition str :: "string \<Rightarrow> rune list" where
  "str cs = map of_char cs"

text \<open>The rune literals that the source compares a rune with.\<close>

definition HASH :: rune where "HASH = rn CHR ''#''"
definition UNDERSCORE :: rune where "UNDERSCORE = rn CHR ''_''"
definition SPACE :: rune where "SPACE = rn CHR '' ''"
definition TAB :: rune where "TAB = 9"      \<comment> \<open>\<open>'\t'\<close>\<close>
definition LF :: rune where "LF = 10"       \<comment> \<open>\<open>'\n'\<close>\<close>
definition CR :: rune where "CR = 13"       \<comment> \<open>\<open>'\r'\<close>\<close>
definition DQUOTE :: rune where "DQUOTE = 34"   \<comment> \<open>the double quote\<close>
definition SQUOTE :: rune where "SQUOTE = 39"   \<comment> \<open>the single quote\<close>

subsection \<open>The data: \<open>Command\<close>, the states, the errors\<close>

text \<open>
  \<open>type Command struct { Name string; Args string; bytes.Buffer }\<close>: the embedded
  buffer receives every rune consumed while the command is being read.
\<close>

record Command =
  Name :: "rune list"
  Args :: "rune list"
  Buffer :: "rune list"

definition emptyCommand :: Command where   \<comment> \<open>\<open>Command{}\<close>\<close>
  "emptyCommand = \<lparr>Name = [], Args = [], Buffer = []\<rparr>"

text \<open>The \<open>iota\<close> constants, in the order of their declaration (0 to 5).\<close>

datatype state =
  stateName | stateArgs | stateMultiline | stateParameter | stateMessage | stateComment

text \<open>
  The errors \<open>Parse\<close> builds:
  \<^item> \<open>MissingValue b\<close> is \<open>fmt.Errorf("missing value for [%s]", b.String())\<close>;
  \<^item> \<open>UnexpectedRune r s\<close> is \<open>fmt.Errorf("unexpected rune %q for state %d", r, s)\<close>;
  \<^item> \<open>InvalidRole\<close> is \<open>errors.New("role must be one of \"system\", \"user\", or \"assistant\"")\<close>;
  \<^item> \<open>UnterminatedMultiline\<close> is \<open>errors.New("unterminated multiline string")\<close>;
  \<^item> \<open>NoFromLine\<close> is \<open>errors.New("no FROM line")\<close>.
\<close>

datatype error =
  MissingValue "rune list"
  | UnexpectedRune rune state
  | InvalidRole
  | UnterminatedMultiline
  | NoFromLine

text \<open>The local variables of \<open>Parse\<close> that live across loop iterations.\<close>

record vars =
  var_s :: state
  var_cmds :: "Command list"
  var_cmd :: Command
  var_b :: "rune list"

definition init :: vars where
  "init = \<lparr>var_s = stateName, var_cmds = [], var_cmd = emptyCommand, var_b = []\<rparr>"

subsection \<open>The rune classes\<close>

definition alpha :: "rune \<Rightarrow> bool" where
  "alpha r \<longleftrightarrow> r \<ge> rn CHR ''a'' \<and> r \<le> rn CHR ''z'' \<or> r \<ge> rn CHR ''A'' \<and> r \<le> rn CHR ''Z''"

definition number :: "rune \<Rightarrow> bool" where
  "number r \<longleftrightarrow> r \<ge> rn CHR ''0'' \<and> r \<le> rn CHR ''9''"

definition space :: "rune \<Rightarrow> bool" where
  "space r \<longleftrightarrow> r = SPACE \<or> r = TAB"

definition newline :: "rune \<Rightarrow> bool" where
  "newline r \<longleftrightarrow> r = CR \<or> r = LF"

definition quote :: "rune \<Rightarrow> bool" where
  "quote r \<longleftrightarrow> r = DQUOTE \<or> r = SQUOTE"

definition isValidRole :: "rune list \<Rightarrow> bool" where
  "isValidRole role \<longleftrightarrow> role = str ''system'' \<or> role = str ''user'' \<or> role = str ''assistant''"

text \<open>
  \<open>strings.ToLower\<close> belongs to Go's standard library. \<open>Parse\<close> applies it to the
  buffer in \<open>stateName\<close> and \<open>stateParameter\<close> only, where the buffer holds ASCII
  letters, digits and underscores: there it maps \<open>'A'\<close> .. \<open>'Z'\<close> to
  \<open>'a'\<close> .. \<open>'z'\<close> and leaves every other rune as it is.
\<close>

definition toLowerRune :: "rune \<Rightarrow> rune" where
  "toLowerRune r = (if rn CHR ''A'' \<le> r \<and> r \<le> rn CHR ''Z'' then r + (rn CHR ''a'' - rn CHR ''A'') else r)"

definition ToLower :: "rune list \<Rightarrow> rune list" where
  "ToLower xs = map toLowerRune xs"

subsection \<open>One iteration of the loop\<close>

text \<open>
  \<open>WriteRune\<close> and \<open>WriteString\<close> on a \<open>bytes.Buffer\<close> return a nil error, so the
  branches \<open>return nil, err\<close> after them are never taken. \<open>writeCmd\<close> is
  \<open>cmd.WriteRune(r)\<close>, done for every rune before the switch.
\<close>

definition writeCmd :: "vars \<Rightarrow> rune \<Rightarrow> vars" where
  "writeCmd v r = v\<lparr>var_cmd := (var_cmd v)\<lparr>Buffer := Buffer (var_cmd v) @ [r]\<rparr>\<rparr>"

definition writeB :: "vars \<Rightarrow> rune \<Rightarrow> vars" where   \<comment> \<open>\<open>b.WriteRune(r)\<close>\<close>
  "writeB v r = v\<lparr>var_b := var_b v @ [r]\<rparr>"

fun switch :: "state \<Rightarrow> vars \<Rightarrow> rune \<Rightarrow> error + vars" where
  "switch stateName v r =
     (if alpha r \<or> number r then Inr (writeB v r)
      else if r = HASH then Inr (v\<lparr>var_s := stateComment\<rparr>)
      else if space r then
        (if length (var_b v) > 0 then
           (let name = ToLower (var_b v);
                name = (if name = str ''from'' then str ''model'' else name)
            in Inr (v\<lparr>var_cmd := (var_cmd v)\<lparr>Name := name\<rparr>,
                     var_b := [],
                     var_s := (if name = str ''parameter'' then stateParameter
                               else if name = str ''message'' then stateMessage
                               else stateArgs)\<rparr>))
         else Inr v)
      else if newline r then
        (if length (var_b v) > 0 then Inl (MissingValue (var_b v)) else Inr v)
      else Inl (UnexpectedRune r stateName))"
| "switch stateParameter v r =
     (if alpha r \<or> number r \<or> r = UNDERSCORE then Inr (writeB v r)
      else if space r then
        Inr (v\<lparr>var_cmd := (var_cmd v)\<lparr>Name := ToLower (var_b v)\<rparr>,
                var_b := [],
                var_s := stateArgs\<rparr>)
      else if newline r then Inl (MissingValue (var_b v))
      else Inl (UnexpectedRune r stateParameter))"
| "switch stateArgs v r =
     (if newline r then
        Inr (v\<lparr>var_cmds := var_cmds v @ [(var_cmd v)\<lparr>Args := Args (var_cmd v) @ var_b v\<rparr>],
                var_cmd := emptyCommand,
                var_b := [],
                var_s := stateName\<rparr>)
      else Inr (writeB v r))"
| "switch stateMultiline v r = Inr (writeB v r)"
| "switch stateMessage v r =
     (if space r then
        (if \<not> isValidRole (var_b v) then Inl InvalidRole
         else Inr (v\<lparr>var_cmd := (var_cmd v)\<lparr>Args := Args (var_cmd v) @ (var_b v @ str '': '')\<rparr>,
                      var_b := [],
                      var_s := stateArgs\<rparr>))
      else if newline r then Inl (MissingValue (var_b v))
      else Inr (writeB v r))"
| "switch stateComment v r =
     (if newline r then
        Inr (v\<lparr>var_b := [], var_cmd := emptyCommand, var_s := stateName\<rparr>)
      else Inr v)"

definition step :: "vars \<Rightarrow> rune \<Rightarrow> error + vars" where
  "step v r = switch (var_s v) (writeCmd v r) r"

subsection \<open>The loop, the trailing buffer, the FROM check\<close>

fun loop :: "vars \<Rightarrow> rune list \<Rightarrow> error + vars" where
  "loop v [] = Inr v"
| "loop v (r # rs) = (case step v r of Inl e \<Rightarrow> Inl e | Inr v' \<Rightarrow> loop v' rs)"

text \<open>\<open>// handle trailing buffer\<close>: the command list after the loop, or an error.\<close>

definition trailing :: "vars \<Rightarrow> error + Command list" where
  "trailing v =
     (if length (var_b v) > 0 then
        (case var_s v of
           stateArgs \<Rightarrow> Inr (var_cmds v @ [(var_cmd v)\<lparr>Args := var_b v\<rparr>])
         | stateMultiline \<Rightarrow> Inl UnterminatedMultiline
         | _ \<Rightarrow> Inl (MissingValue (var_b v)))
      else Inr (var_cmds v))"

text \<open>
  \<open>for _, cmd := range cmds { if cmd.Name == "model" { return cmds, nil } }\<close> followed
  by \<open>return nil, errors.New("no FROM line")\<close>; the first argument is the whole list.
\<close>

fun checkFrom :: "Command list \<Rightarrow> Command list \<Rightarrow> error + Command list" where
  "checkFrom cmds [] = Inl NoFromLine"
| "checkFrom cmds (c # cs) = (if Name c = str ''model'' then Inr cmds else checkFrom cmds cs)"

definition Parse :: "rune list \<Rightarrow> error + Command list" where
  "Parse input =
     (case loop init input of
        Inl e \<Rightarrow> Inl e
      | Inr v \<Rightarrow> (case trailing v of Inl e \<Rightarrow> Inl e | Inr cmds \<Rightarrow> checkFrom cmds cmds))"

text \<open>
  What a caller observes of a result: the \<open>(Name, Args)\<close> pairs in order, or the error.
  The repository's tests compare results with the embedded buffer ignored.
\<close>

definition records :: "Command list \<Rightarrow> (rune list \<times> rune list) list" where
  "records cmds = map (\<lambda>c. (Name c, Args c)) cmds"

definition outcome :: "rune list \<Rightarrow> error + (rune list \<times> rune list) list" where
  "outcome input = map_sum id records (Parse input)"

subsection \<open>Vocabulary of the statements\<close>

text \<open>
  The runes that a state appends to the buffer \<open>b\<close> as part of a token: the first case
  of the switch in \<open>stateName\<close> and \<open>stateParameter\<close>, the default case in
  \<open>stateMessage\<close>. The other states read no token.
\<close>

fun tokenRune :: "state \<Rightarrow> rune \<Rightarrow> bool" where
  "tokenRune stateName r = (alpha r \<or> number r)"
| "tokenRune stateParameter r = (alpha r \<or> number r \<or> r = UNDERSCORE)"
| "tokenRune stateMessage r = (\<not> space r \<and> \<not> newline r)"
| "tokenRune stateArgs r = False"
| "tokenRune stateMultiline r = False"
| "tokenRune stateComment r = False"

text \<open>No command built so far has an upper-case ASCII letter in its name.\<close>

definition lowNames :: "vars \<Rightarrow> bool" where
  "lowNames v \<longleftrightarrow>
     list_all (\<lambda>c. ToLower (Name c) = Name c) (var_cmds v) \<and>
     ToLower (Name (var_cmd v)) = Name (var_cmd v)"

text \<open>
  The name that \<open>stateName\<close> gives a command whose keyword is \<open>kw\<close>:
  \<open>strings.ToLower(b.String())\<close>, with \<open>from\<close> replaced by \<open>model\<close>.
\<close>

abbreviation (input) canonical :: "rune list \<Rightarrow> rune list" where
  "canonical kw \<equiv> (if ToLower kw = str ''from'' then str ''model'' else ToLower kw)"

text \<open>Every LF of a document replaced by the pair CR, LF.\<close>

fun crlf :: "rune list \<Rightarrow> rune list" where
  "crlf [] = []"
| "crlf (r # rs) = (if r = LF then CR # LF # crlf rs else r # crlf rs)"

text \<open>Two sets of local variables that differ at most in the embedded buffers of their commands.\<close>

definition sameVars :: "vars \<Rightarrow> vars \<Rightarrow> bool" where
  "sameVars v w \<longleftrightarrow>
     var_s v = var_s w \<and> var_b v = var_b w \<and>
     records (var_cmds v) = records (var_cmds w) \<and>
     Name (var_cmd v) = Name (var_cmd w) \<and> Args (var_cmd v) = Args (var_cmd w)"

section \<open>Helper facts\<close>

lemma loop_append:
  "loop v (xs @ ys) = (case loop v xs of Inl e \<Rightarrow> Inl e | Inr v' \<Rightarrow> loop v' ys)"
  by (induction xs arbitrary: v) (auto split: sum.splits)

lemma loop_append_Inr: "loop v xs = Inr v' \<Longrightarrow> loop v (xs @ ys) = loop v' ys"
  by (simp add: loop_append)

lemma step_token:
  "tokenRune (var_s v) r \<Longrightarrow> step v r = Inr (writeB (writeCmd v r) r)"
  by (cases "var_s v") (simp_all add: step_def writeCmd_def)

lemma loop_token:
  "\<forall>r\<in>set tok. tokenRune (var_s v) r \<Longrightarrow>
   loop v tok = Inr (v\<lparr>var_b := var_b v @ tok,
                        var_cmd := (var_cmd v)\<lparr>Buffer := Buffer (var_cmd v) @ tok\<rparr>\<rparr>)"
  by (induction tok arbitrary: v) (simp_all add: step_token writeB_def writeCmd_def)

lemma step_newline_missing:
  "var_s v = stateName \<or> var_s v = stateParameter \<or> var_s v = stateMessage \<Longrightarrow>
   var_b v \<noteq> [] \<Longrightarrow> newline nl \<Longrightarrow> step v nl = Inl (MissingValue (var_b v))"
  by (auto simp: step_def writeCmd_def newline_def alpha_def number_def space_def
      CR_def LF_def TAB_def SPACE_def HASH_def UNDERSCORE_def)

lemma trailing_missing:
  "var_s v = stateName \<or> var_s v = stateParameter \<or> var_s v = stateMessage \<Longrightarrow>
   var_b v \<noteq> [] \<Longrightarrow> trailing v = Inl (MissingValue (var_b v))"
  by (auto simp: trailing_def)

lemma checkFrom_iff:
  "checkFrom cmds cs = (if \<exists>c\<in>set cs. Name c = str ''model'' then Inr cmds else Inl NoFromLine)"
  by (induction cs) auto

lemma step_not_NoFromLine: "step v r \<noteq> Inl NoFromLine"
  by (cases "var_s v") (auto simp: step_def Let_def)

lemma loop_not_NoFromLine: "loop v xs \<noteq> Inl NoFromLine"
  by (induction xs arbitrary: v) (auto simp: step_not_NoFromLine split: sum.splits)

lemma trailing_not_NoFromLine: "trailing v \<noteq> Inl NoFromLine"
  by (auto simp: trailing_def split: state.splits)

lemma toLowerRune_idem [simp]: "toLowerRune (toLowerRune r) = toLowerRune r"
  by (simp add: toLowerRune_def)

lemma ToLower_idem [simp]: "ToLower (ToLower xs) = ToLower xs"
  by (simp add: ToLower_def)

lemma ToLower_keywords [simp]:
  "ToLower (str ''model'') = str ''model''"
  "ToLower (str ''parameter'') = str ''parameter''"
  "ToLower (str ''message'') = str ''message''"
  by (simp_all add: ToLower_def toLowerRune_def str_def)

lemma ToLower_Nil [simp]: "ToLower [] = []"
  by (simp add: ToLower_def)

lemma step_lowNames: "lowNames v \<Longrightarrow> step v r = Inr v' \<Longrightarrow> lowNames v'"
  by (cases "var_s v")
    (auto simp: step_def writeCmd_def writeB_def lowNames_def Let_def emptyCommand_def
      split: if_splits)

lemma loop_lowNames: "lowNames v \<Longrightarrow> loop v xs = Inr v' \<Longrightarrow> lowNames v'"
  by (induction xs arbitrary: v) (auto split: sum.splits dest: step_lowNames)

lemma trailing_lowNames:
  "lowNames v \<Longrightarrow> trailing v = Inr cs \<Longrightarrow> list_all (\<lambda>c. ToLower (Name c) = Name c) cs"
  by (auto simp: trailing_def lowNames_def split: if_splits state.splits)

lemma Parse_lowNames:
  assumes "Parse input = Inr cmds"
  shows "list_all (\<lambda>c. ToLower (Name c) = Name c) cmds"
proof -
  obtain v where v: "loop init input = Inr v" and t: "trailing v = Inr cmds"
    using assms by (auto simp: Parse_def checkFrom_iff split: sum.splits if_splits)
  have "lowNames init"
    by (simp add: lowNames_def init_def emptyCommand_def)
  then have "lowNames v" using v by (rule loop_lowNames)
  then show ?thesis using t by (rule trailing_lowNames)
qed

lemma alpha_toLowerRune: "alpha (toLowerRune r) \<Longrightarrow> alpha r"
  by (auto simp: alpha_def toLowerRune_def split: if_splits)

lemma ToLower_from_alpha:
  assumes "ToLower kw = str ''from''"
  shows "\<forall>r\<in>set kw. alpha r" and "kw \<noteq> []"
proof -
  have "alpha (toLowerRune r)" if "r \<in> set kw" for r
  proof -
    have "toLowerRune r \<in> set (ToLower kw)"
      using that by (simp add: ToLower_def)
    then show ?thesis
      unfolding assms by (auto simp: str_def alpha_def)
  qed
  then show "\<forall>r\<in>set kw. alpha r" by (blast intro: alpha_toLowerRune)
  show "kw \<noteq> []" using assms by (auto simp: ToLower_def str_def)
qed

lemma loop_args:
  "var_s v = stateArgs \<Longrightarrow> \<forall>r\<in>set xs. \<not> newline r \<Longrightarrow>
   loop v xs = Inr (v\<lparr>var_b := var_b v @ xs,
                       var_cmd := (var_cmd v)\<lparr>Buffer := Buffer (var_cmd v) @ xs\<rparr>\<rparr>)"
  by (induction xs arbitrary: v) (simp_all add: step_def writeCmd_def writeB_def)

lemma space_class: "space r \<Longrightarrow> \<not> alpha r \<and> \<not> number r \<and> r \<noteq> HASH \<and> \<not> newline r \<and> r \<noteq> UNDERSCORE"
  by (auto simp: space_def alpha_def number_def newline_def SPACE_def TAB_def HASH_def CR_def LF_def UNDERSCORE_def)

lemma newline_class: "newline r \<Longrightarrow> \<not> alpha r \<and> \<not> number r \<and> r \<noteq> HASH \<and> \<not> space r \<and> r \<noteq> UNDERSCORE"
  by (auto simp: space_def alpha_def number_def newline_def SPACE_def TAB_def HASH_def CR_def LF_def UNDERSCORE_def)

text \<open>A whole directive line read from the start of a line.\<close>

lemma loop_keyword:
  assumes "var_s v = stateName" "var_b v = []" "kw \<noteq> []" "\<forall>r\<in>set kw. alpha r \<or> number r"
    "ToLower kw \<noteq> str ''parameter''" "ToLower kw \<noteq> str ''message''" "space sp"
  shows "loop v (kw @ [sp])
         = Inr \<lparr>var_s = stateArgs, var_cmds = var_cmds v,
                var_cmd = (var_cmd v)\<lparr>Name := canonical kw, Buffer := Buffer (var_cmd v) @ kw @ [sp]\<rparr>,
                var_b = []\<rparr>"
proof -
  define v1 where "v1 = v\<lparr>var_b := var_b v @ kw,
                          var_cmd := (var_cmd v)\<lparr>Buffer := Buffer (var_cmd v) @ kw\<rparr>\<rparr>"
  have 1: "loop v kw = Inr v1"
    unfolding v1_def using assms(1,4) by (intro loop_token) simp
  have m: "str ''model'' \<noteq> str ''parameter''" "str ''model'' \<noteq> str ''message''"
    by (simp_all add: str_def)
  have 2: "step v1 sp
           = Inr \<lparr>var_s = stateArgs, var_cmds = var_cmds v,
                  var_cmd = (var_cmd v)\<lparr>Name := canonical kw, Buffer := Buffer (var_cmd v) @ kw @ [sp]\<rparr>,
                  var_b = []\<rparr>"
    using assms(1,2,3,5,6,7) space_class [OF assms(7)] m
    by (cases v) (simp add: v1_def step_def writeCmd_def Let_def)
  show ?thesis
    by (simp add: loop_append 1 2)
qed

lemma step_name_args: "(var_s v = stateName \<longrightarrow> Args (var_cmd v) = []) \<Longrightarrow> step v r = Inr v' \<Longrightarrow>
  (var_s v' = stateName \<longrightarrow> Args (var_cmd v') = [])"
  by (cases "var_s v")
    (auto simp: step_def writeCmd_def writeB_def Let_def emptyCommand_def split: if_splits)

lemma loop_name_args: "(var_s v = stateName \<longrightarrow> Args (var_cmd v) = []) \<Longrightarrow> loop v xs = Inr v' \<Longrightarrow>
  (var_s v' = stateName \<longrightarrow> Args (var_cmd v') = [])"
proof (induction xs arbitrary: v)
  case Nil
  then show ?case by simp
next
  case (Cons r rs)
  then obtain v1 where 1: "step v r = Inr v1" and 2: "loop v1 rs = Inr v'"
    by (auto split: sum.splits)
  from step_name_args [OF Cons.prems(1) 1] 2 show ?case
    by (rule Cons.IH)
qed

lemma init_name_args: "loop init xs = Inr v \<Longrightarrow> var_s v = stateName \<Longrightarrow> Args (var_cmd v) = []"
  using loop_name_args [of init xs v] by (simp add: init_def emptyCommand_def)


lemma loop_directive_line:
  assumes "var_s v = stateName" "var_b v = []" "Args (var_cmd v) = []"
    "kw \<noteq> []" "\<forall>r\<in>set kw. alpha r \<or> number r"
    "ToLower kw \<noteq> str ''parameter''" "ToLower kw \<noteq> str ''message''" "space sp"
    "\<forall>r\<in>set x. \<not> newline r" "newline nl"
  shows "loop v (kw @ sp # x @ [nl])
         = Inr \<lparr>var_s = stateName,
                var_cmds = var_cmds v @ [\<lparr>Name = canonical kw, Args = x,
                                          Buffer = Buffer (var_cmd v) @ kw @ sp # x @ [nl]\<rparr>],
                var_cmd = emptyCommand, var_b = []\<rparr>"
proof -
  define v1 where "v1 = \<lparr>var_s = stateArgs, var_cmds = var_cmds v,
      var_cmd = (var_cmd v)\<lparr>Name := canonical kw, Buffer := Buffer (var_cmd v) @ kw @ [sp]\<rparr>,
      var_b = []\<rparr>"
  define v2 where "v2 = v1\<lparr>var_b := var_b v1 @ x,
      var_cmd := (var_cmd v1)\<lparr>Buffer := Buffer (var_cmd v1) @ x\<rparr>\<rparr>"
  have 1: "loop v (kw @ [sp]) = Inr v1"
    unfolding v1_def using assms(1,2,4-8) by (rule loop_keyword)
  have 2: "loop v1 x = Inr v2"
    unfolding v2_def using assms(9) by (intro loop_args) (simp_all add: v1_def)
  have 3: "step v2 nl
           = Inr \<lparr>var_s = stateName,
                  var_cmds = var_cmds v @ [\<lparr>Name = canonical kw, Args = x,
                                            Buffer = Buffer (var_cmd v) @ kw @ sp # x @ [nl]\<rparr>],
                  var_cmd = emptyCommand, var_b = []\<rparr>"
    using assms(3,10) by (cases "var_cmd v") (simp add: v2_def v1_def step_def writeCmd_def)
  have "loop v ((kw @ [sp]) @ x @ [nl]) = loop v1 (x @ [nl])"
    using 1 by (rule loop_append_Inr)
  then show ?thesis
    by (simp add: loop_append 2 3)
qed

lemma loop_directive_open:
  assumes "var_s v = stateName" "var_b v = []"
    "kw \<noteq> []" "\<forall>r\<in>set kw. alpha r \<or> number r"
    "ToLower kw \<noteq> str ''parameter''" "ToLower kw \<noteq> str ''message''" "space sp"
    "\<forall>r\<in>set x. \<not> newline r"
  shows "loop v (kw @ sp # x)
         = Inr \<lparr>var_s = stateArgs, var_cmds = var_cmds v,
                var_cmd = (var_cmd v)\<lparr>Name := canonical kw, Buffer := Buffer (var_cmd v) @ kw @ sp # x\<rparr>,
                var_b = x\<rparr>"
proof -
  define v1 where "v1 = \<lparr>var_s = stateArgs, var_cmds = var_cmds v,
      var_cmd = (var_cmd v)\<lparr>Name := canonical kw, Buffer := Buffer (var_cmd v) @ kw @ [sp]\<rparr>,
      var_b = []\<rparr>"
  have 1: "loop v (kw @ [sp]) = Inr v1"
    unfolding v1_def using assms(1-7) by (rule loop_keyword)
  have 2: "loop v1 x = Inr (v1\<lparr>var_b := var_b v1 @ x,
      var_cmd := (var_cmd v1)\<lparr>Buffer := Buffer (var_cmd v1) @ x\<rparr>\<rparr>)"
    using assms(8) by (intro loop_args) (simp_all add: v1_def)
  have "loop v ((kw @ [sp]) @ x) = loop v1 x"
    using 1 by (rule loop_append_Inr)
  then show ?thesis
    by (simp add: 2) (simp add: v1_def)
qed

lemma records_append [simp]: "records (xs @ ys) = records xs @ records ys"
  by (simp add: records_def)

lemma step_sameVars:
  "sameVars v w \<Longrightarrow> rel_sum (=) sameVars (step v r) (step w r)"
  by (cases "var_s v")
    (auto simp: sameVars_def step_def writeCmd_def writeB_def Let_def records_def emptyCommand_def)

lemma sameVars_writeCmd: "sameVars v w \<Longrightarrow> sameVars v (writeCmd w r)"
  by (simp add: sameVars_def writeCmd_def)

lemma step_newline_any:
  "var_s v \<noteq> stateMultiline \<Longrightarrow> newline r \<Longrightarrow> newline r' \<Longrightarrow>
   rel_sum (=) sameVars (step v r) (step v r')"
  using newline_class [of r] newline_class [of r']
  by (cases "var_s v")
    (auto simp: sameVars_def step_def writeCmd_def writeB_def records_def emptyCommand_def)

lemma step_newline_result:
  "var_s v \<noteq> stateMultiline \<Longrightarrow> newline r \<Longrightarrow> step v r = Inr v' \<Longrightarrow>
   var_s v' = stateName \<and> var_b v' = []"
  using newline_class [of r]
  by (cases "var_s v") (auto simp: step_def writeCmd_def split: if_splits)

lemma step_blank_line:
  "var_s v = stateName \<Longrightarrow> var_b v = [] \<Longrightarrow> newline r \<Longrightarrow> step v r = Inr (writeCmd v r)"
  using newline_class [of r] by (simp add: step_def writeCmd_def)

lemma step_no_multiline:
  "var_s v \<noteq> stateMultiline \<Longrightarrow> step v r = Inr v' \<Longrightarrow> var_s v' \<noteq> stateMultiline"
  by (cases "var_s v") (auto simp: step_def writeCmd_def writeB_def Let_def split: if_splits)

lemma step_LF_as_CR_LF:
  assumes "sameVars v w" and "var_s v \<noteq> stateMultiline"
  shows "rel_sum (=) sameVars (step v LF) (loop w [CR, LF])"
proof -
  have nl: "newline LF" "newline CR" by (simp_all add: newline_def)
  have w: "var_s w \<noteq> stateMultiline" using assms by (simp add: sameVars_def)
  have a: "rel_sum (=) sameVars (step v LF) (step w LF)"
    using assms(1) by (rule step_sameVars)
  have b: "rel_sum (=) sameVars (step w LF) (step w CR)"
    using w nl by (rule step_newline_any)
  show ?thesis
  proof (cases "step w CR")
    case (Inl e)
    with a b show ?thesis
      by (cases "step v LF"; cases "step w LF") simp_all
  next
    case (Inr w2)
    then obtain v1 w1 where v1: "step v LF = Inr v1" and w1: "step w LF = Inr w1"
      and s1: "sameVars v1 w1" and s2: "sameVars w1 w2"
      using a b by (cases "step v LF"; cases "step w LF") simp_all
    have "var_s w2 = stateName \<and> var_b w2 = []"
      using w nl(2) Inr by (rule step_newline_result)
    then have "step w2 LF = Inr (writeCmd w2 LF)"
      using nl(1) by (simp add: step_blank_line)
    moreover have "sameVars v1 (writeCmd w2 LF)"
      using s1 s2 by (simp add: sameVars_def writeCmd_def)
    ultimately show ?thesis
      by (simp add: Inr v1)
  qed
qed

lemma loop_crlf:
  "sameVars v w \<Longrightarrow> var_s v \<noteq> stateMultiline \<Longrightarrow>
   rel_sum (=) sameVars (loop v xs) (loop w (crlf xs))"
proof (induction xs arbitrary: v w)
  case Nil
  then show ?case by simp
next
  case (Cons r rs)
  show ?case
  proof (cases "r = LF")
    case True
    define res where "res = loop w [CR, LF]"
    have rel: "rel_sum (=) sameVars (step v LF) res"
      unfolding res_def using Cons.prems by (rule step_LF_as_CR_LF)
    have split: "loop w (crlf (r # rs))
                 = (case res of Inl e \<Rightarrow> Inl e | Inr w' \<Rightarrow> loop w' (crlf rs))"
      unfolding res_def using loop_append [of w "[CR, LF]" "crlf rs"] True by simp
    show ?thesis
    proof (cases "step v LF")
      case (Inl e)
      then have "res = Inl e"
        using rel by (cases res) simp_all
      then show ?thesis
        unfolding split by (simp add: True Inl)
    next
      case (Inr v1)
      then obtain w1 where w1: "res = Inr w1" and s: "sameVars v1 w1"
        using rel by (cases res) simp_all
      have "var_s v1 \<noteq> stateMultiline"
        using Cons.prems(2) Inr by (rule step_no_multiline)
      with s have "rel_sum (=) sameVars (loop v1 rs) (loop w1 (crlf rs))"
        by (rule Cons.IH)
      then show ?thesis
        unfolding split by (simp add: True Inr w1)
    qed
  next
    case False
    have rel: "rel_sum (=) sameVars (step v r) (step w r)"
      using Cons.prems(1) by (rule step_sameVars)
    show ?thesis
    proof (cases "step v r")
      case (Inl e)
      then have "step w r = Inl e"
        using rel by (cases "step w r") simp_all
      then show ?thesis
        by (simp add: False Inl)
    next
      case (Inr v1)
      then obtain w1 where w1: "step w r = Inr w1" and s: "sameVars v1 w1"
        using rel by (cases "step w r") simp_all
      have "var_s v1 \<noteq> stateMultiline"
        using Cons.prems(2) Inr by (rule step_no_multiline)
      with s have "rel_sum (=) sameVars (loop v1 rs) (loop w1 (crlf rs))"
        by (rule Cons.IH)
      then show ?thesis
        by (simp add: False Inr w1)
    qed
  qed
qed

lemma has_model_records:
  "(\<exists>c\<in>set cs. Name c = m) \<longleftrightarrow> m \<in> fst ` set (records cs)"
  by (force simp: records_def)

lemma finish_sameVars:
  assumes "sameVars v w"
  shows "map_sum id records (case trailing v of Inl e \<Rightarrow> Inl e | Inr cs \<Rightarrow> checkFrom cs cs)
       = map_sum id records (case trailing w of Inl e \<Rightarrow> Inl e | Inr cs \<Rightarrow> checkFrom cs cs)"
proof -
  have "rel_sum (=) (\<lambda>cs cs'. records cs = records cs') (trailing v) (trailing w)"
    using assms by (cases "var_s v") (auto simp: sameVars_def trailing_def records_def)
  then show ?thesis
    by (cases "trailing v"; cases "trailing w")
      (simp_all add: checkFrom_iff has_model_records)
qed

text \<open>
  Whenever \<open>Parse\<close> calls \<open>strings.ToLower\<close> (in \<open>stateName\<close> and
  \<open>stateParameter\<close>), the buffer holds ASCII letters, digits and underscores only.
\<close>

lemma step_buffer_ascii:
  "(var_s v = stateName \<or> var_s v = stateParameter \<longrightarrow> list_all (tokenRune stateParameter) (var_b v)) \<Longrightarrow>
   step v r = Inr v' \<Longrightarrow>
   (var_s v' = stateName \<or> var_s v' = stateParameter \<longrightarrow> list_all (tokenRune stateParameter) (var_b v'))"
  by (cases "var_s v")
    (auto simp: step_def writeCmd_def writeB_def Let_def split: if_splits)

lemma loop_buffer_ascii:
  "(var_s v = stateName \<or> var_s v = stateParameter \<longrightarrow> list_all (tokenRune stateParameter) (var_b v)) \<Longrightarrow>
   loop v xs = Inr v' \<Longrightarrow>
   (var_s v' = stateName \<or> var_s v' = stateParameter \<longrightarrow> list_all (tokenRune stateParameter) (var_b v'))"
proof (induction xs arbitrary: v)
  case Nil
  then show ?case by simp
next
  case (Cons r rs)
  then obtain v1 where 1: "step v r = Inr v1" and 2: "loop v1 rs = Inr v'"
    by (auto split: sum.splits)
  from step_buffer_ascii [OF Cons.prems(1) 1] 2 show ?case
    by (rule Cons.IH)
qed

lemma ToLower_argument_ascii:
  assumes "loop init xs = Inr v" and "var_s v = stateName \<or> var_s v = stateParameter"
  shows "\<forall>x\<in>set (var_b v). alpha x \<or> number x \<or> x = UNDERSCORE"
  using loop_buffer_ascii [of init xs v] assms by (simp add: init_def list_all_iff)

lemma ToLower_alpha_word:
  assumes "\<forall>c\<in>set (ToLower kw). alpha c"
  shows "\<forall>r\<in>set kw. alpha r"
proof
  fix r assume "r \<in> set kw"
  then have "toLowerRune r \<in> set (ToLower kw)"
    by (simp add: ToLower_def)
  with assms have "alpha (toLowerRune r)" by blast
  then show "alpha r" by (rule alpha_toLowerRune)
qed

lemma keyword_parameter:
  assumes "ToLower kw = str ''parameter''"
  shows "\<forall>r\<in>set kw. alpha r \<or> number r" and "kw \<noteq> []"
proof -
  have "\<forall>c\<in>set (ToLower kw). alpha c"
    unfolding assms by (simp add: str_def alpha_def)
  then show "\<forall>r\<in>set kw. alpha r \<or> number r"
    using ToLower_alpha_word by blast
  show "kw \<noteq> []" using assms by (auto simp: ToLower_def str_def)
qed

lemma keyword_message:
  assumes "ToLower kw = str ''message''"
  shows "\<forall>r\<in>set kw. alpha r \<or> number r" and "kw \<noteq> []"
proof -
  have "\<forall>c\<in>set (ToLower kw). alpha c"
    unfolding assms by (simp add: str_def alpha_def)
  then show "\<forall>r\<in>set kw. alpha r \<or> number r"
    using ToLower_alpha_word by blast
  show "kw \<noteq> []" using assms by (auto simp: ToLower_def str_def)
qed

text \<open>The space that ends a keyword, whatever the letter case of the keyword.\<close>

lemma loop_keyword_any_case:
  assumes "var_s v = stateName" "var_b v = []" "kw \<noteq> []" "\<forall>r\<in>set kw. alpha r \<or> number r"
    "space sp"
  shows "loop v (kw @ [sp])
         = Inr \<lparr>var_s = (if ToLower kw = str ''parameter'' then stateParameter
                         else if ToLower kw = str ''message'' then stateMessage
                         else stateArgs),
                var_cmds = var_cmds v,
                var_cmd = (var_cmd v)\<lparr>Name := canonical kw, Buffer := Buffer (var_cmd v) @ kw @ [sp]\<rparr>,
                var_b = []\<rparr>"
proof -
  define v1 where "v1 = v\<lparr>var_b := var_b v @ kw,
                          var_cmd := (var_cmd v)\<lparr>Buffer := Buffer (var_cmd v) @ kw\<rparr>\<rparr>"
  have 1: "loop v kw = Inr v1"
    unfolding v1_def using assms(1,4) by (intro loop_token) simp
  have m: "str ''model'' \<noteq> str ''parameter''" "str ''model'' \<noteq> str ''message''"
    "str ''parameter'' \<noteq> str ''from''" "str ''message'' \<noteq> str ''from''"
    "str ''parameter'' \<noteq> str ''message''"
    by (simp_all add: str_def)
  have 2: "step v1 sp
           = Inr \<lparr>var_s = (if ToLower kw = str ''parameter'' then stateParameter
                         else if ToLower kw = str ''message'' then stateMessage
                         else stateArgs),
                  var_cmds = var_cmds v,
                  var_cmd = (var_cmd v)\<lparr>Name := canonical kw, Buffer := Buffer (var_cmd v) @ kw @ [sp]\<rparr>,
                  var_b = []\<rparr>"
    using assms(1,2,3,5) space_class [OF assms(5)] m
    by (cases v) (simp add: v1_def step_def writeCmd_def Let_def)
  show ?thesis
    by (simp add: loop_append 1 2)
qed

text \<open>A value read in \<open>stateArgs\<close> up to its newline.\<close>

lemma loop_value_line:
  assumes "var_s w = stateArgs" "var_b w = []" "\<forall>r\<in>set x. \<not> newline r" "newline nl"
  shows "loop w (x @ [nl])
         = Inr \<lparr>var_s = stateName,
                var_cmds = var_cmds w @ [\<lparr>Name = Name (var_cmd w), Args = Args (var_cmd w) @ x,
                                          Buffer = Buffer (var_cmd w) @ x @ [nl]\<rparr>],
                var_cmd = emptyCommand, var_b = []\<rparr>"
proof -
  define w1 where "w1 = w\<lparr>var_b := var_b w @ x,
      var_cmd := (var_cmd w)\<lparr>Buffer := Buffer (var_cmd w) @ x\<rparr>\<rparr>"
  have 1: "loop w x = Inr w1"
    unfolding w1_def using assms(1,3) by (rule loop_args)
  have 2: "step w1 nl
           = Inr \<lparr>var_s = stateName,
                var_cmds = var_cmds w @ [\<lparr>Name = Name (var_cmd w), Args = Args (var_cmd w) @ x,
                                          Buffer = Buffer (var_cmd w) @ x @ [nl]\<rparr>],
                var_cmd = emptyCommand, var_b = []\<rparr>"
    using assms(1,2,4) by (cases w; cases "var_cmd w") (simp add: w1_def step_def writeCmd_def)
  show ?thesis
    by (simp add: loop_append 1 2)
qed

lemma parameter_line:
  assumes "var_s v = stateName" "var_b v = []" "Args (var_cmd v) = []"
    "ToLower kw = str ''parameter''" "space sp"
    "\<forall>r\<in>set key. alpha r \<or> number r \<or> r = UNDERSCORE" "space sp2"
    "\<forall>r\<in>set x. \<not> newline r" "newline nl"
  shows "\<exists>v'. loop v (kw @ sp # key @ sp2 # x @ [nl]) = Inr v' \<and>
              var_s v' = stateName \<and> var_b v' = [] \<and>
              records (var_cmds v') = records (var_cmds v) @ [(ToLower key, x)]"
proof -
  define v1 where "v1 = \<lparr>var_s = stateParameter, var_cmds = var_cmds v,
      var_cmd = (var_cmd v)\<lparr>Name := canonical kw, Buffer := Buffer (var_cmd v) @ kw @ [sp]\<rparr>,
      var_b = []\<rparr>"
  define v2 where "v2 = v1\<lparr>var_b := var_b v1 @ key,
      var_cmd := (var_cmd v1)\<lparr>Buffer := Buffer (var_cmd v1) @ key\<rparr>\<rparr>"
  define v3 where "v3 = v2\<lparr>var_cmd := (var_cmd v2)\<lparr>Buffer := Buffer (var_cmd v2) @ [sp2],
                                                   Name := ToLower key\<rparr>,
                          var_b := [], var_s := stateArgs\<rparr>"
  have 1: "loop v (kw @ [sp]) = Inr v1"
    using loop_keyword_any_case [OF assms(1,2) keyword_parameter(2) keyword_parameter(1) assms(5),
        OF assms(4) assms(4)] assms(4)
    by (simp add: v1_def)
  have 2: "loop v1 key = Inr v2"
    unfolding v2_def using assms(6) by (intro loop_token) (simp add: v1_def)
  have 3: "step v2 sp2 = Inr v3"
    using assms(7) space_class [OF assms(7)]
    by (simp add: v3_def v2_def v1_def step_def writeCmd_def)
  have s3: "var_s v3 = stateArgs" "var_b v3 = []"
    by (simp_all add: v3_def)
  note 4 = loop_value_line [OF s3 assms(8,9)]
  have "loop v ((kw @ [sp]) @ key @ sp2 # x @ [nl]) = loop v1 (key @ sp2 # x @ [nl])"
    using 1 by (rule loop_append_Inr)
  also have "\<dots> = loop v2 (sp2 # x @ [nl])"
    using 2 by (rule loop_append_Inr)
  also have "\<dots> = loop v3 (x @ [nl])"
    by (simp add: 3)
  finally have "loop v (kw @ sp # key @ sp2 # x @ [nl]) = loop v3 (x @ [nl])"
    by simp
  then show ?thesis
    using assms(3) by (simp add: 4) (simp add: v3_def v2_def v1_def records_def)
qed

lemma valid_role_runes: "isValidRole role \<Longrightarrow> \<forall>r\<in>set role. \<not> space r \<and> \<not> newline r"
  by (auto simp: isValidRole_def str_def space_def newline_def SPACE_def TAB_def CR_def LF_def)

lemma message_line:
  assumes "var_s v = stateName" "var_b v = []" "Args (var_cmd v) = []"
    "ToLower kw = str ''message''" "space sp"
    "isValidRole role" "space sp2"
    "\<forall>r\<in>set x. \<not> newline r" "newline nl"
  shows "\<exists>v'. loop v (kw @ sp # role @ sp2 # x @ [nl]) = Inr v' \<and>
              var_s v' = stateName \<and> var_b v' = [] \<and>
              records (var_cmds v') = records (var_cmds v) @ [(str ''message'', role @ str '': '' @ x)]"
proof -
  define v1 where "v1 = \<lparr>var_s = stateMessage, var_cmds = var_cmds v,
      var_cmd = (var_cmd v)\<lparr>Name := canonical kw, Buffer := Buffer (var_cmd v) @ kw @ [sp]\<rparr>,
      var_b = []\<rparr>"
  define v2 where "v2 = v1\<lparr>var_b := var_b v1 @ role,
      var_cmd := (var_cmd v1)\<lparr>Buffer := Buffer (var_cmd v1) @ role\<rparr>\<rparr>"
  define v3 where "v3 = v2\<lparr>var_cmd := (var_cmd v2)\<lparr>Buffer := Buffer (var_cmd v2) @ [sp2],
                                  Args := Args (var_cmd v2) @ (role @ str '': '')\<rparr>,
                          var_b := [], var_s := stateArgs\<rparr>"
  have pm: "str ''message'' \<noteq> str ''parameter''" "str ''message'' \<noteq> str ''from''"
    by (simp_all add: str_def)
  have 1: "loop v (kw @ [sp]) = Inr v1"
    using loop_keyword_any_case [OF assms(1,2) keyword_message(2) keyword_message(1) assms(5),
        OF assms(4) assms(4)] assms(4) pm
    by (simp add: v1_def)
  have 2: "loop v1 role = Inr v2"
    unfolding v2_def using valid_role_runes [OF assms(6)] by (intro loop_token) (simp add: v1_def)
  have 3: "step v2 sp2 = Inr v3"
    using assms(6,7)
    by (simp add: v3_def v2_def v1_def step_def writeCmd_def)
  have s3: "var_s v3 = stateArgs" "var_b v3 = []"
    by (simp_all add: v3_def)
  note 4 = loop_value_line [OF s3 assms(8,9)]
  have "loop v ((kw @ [sp]) @ role @ sp2 # x @ [nl]) = loop v1 (role @ sp2 # x @ [nl])"
    using 1 by (rule loop_append_Inr)
  also have "\<dots> = loop v2 (sp2 # x @ [nl])"
    using 2 by (rule loop_append_Inr)
  also have "\<dots> = loop v3 (x @ [nl])"
    by (simp add: 3)
  finally have "loop v (kw @ sp # role @ sp2 # x @ [nl]) = loop v3 (x @ [nl])"
    by simp
  then show ?thesis
    using assms(3,4) pm by (simp add: 4) (simp add: v3_def v2_def v1_def records_def)
qed


section \<open>The claims\<close>

text \<open>
  C1 (the code departs from the claim). The claim: a value that starts with three double
  quotes is captured in quoted mode, the delimiters are dropped, and
  \<open>FROM foo\nTEMPLATE """a b"""\n\<close> yields the record \<open>(template, "a b")\<close>. In the
  source the quote cases of \<open>stateArgs\<close> and \<open>stateMultiline\<close> are a \<open>TODO\<close> comment,
  so the six quote characters stay in the value.
\<close>

theorem C1_triple_quote_kept_in_value:
  "outcome (str ''FROM foo'' @ [LF] @ str ''TEMPLATE '' @ [DQUOTE, DQUOTE, DQUOTE]
            @ str ''a b'' @ [DQUOTE, DQUOTE, DQUOTE] @ [LF])
   = Inr [(str ''model'', str ''foo''),
          (str ''template'', [DQUOTE, DQUOTE, DQUOTE] @ str ''a b'' @ [DQUOTE, DQUOTE, DQUOTE])]"
  by code_simp

text \<open>
  C2 (the code departs from the claim). The claim: a triple-quoted value that is still
  open at the end of the input makes \<open>Parse\<close> fail with "unterminated multiline
  string". No transition of the source enters \<open>stateMultiline\<close>, so the open value is
  returned as a record, quotes included.
\<close>

theorem C2_open_triple_quote_is_accepted:
  "outcome (str ''FROM foo'' @ [LF] @ str ''TEMPLATE '' @ [DQUOTE, DQUOTE, DQUOTE] @ str ''abc'')
   = Inr [(str ''model'', str ''foo''),
          (str ''template'', [DQUOTE, DQUOTE, DQUOTE] @ str ''abc'')]"
  by code_simp

text \<open>
  C3 (the code departs from the claim). The claim: every record of a successful result
  has a non-empty name. \<open>stateName\<close> finishes a name only when the buffer is
  non-empty, but \<open>stateParameter\<close> finishes the key on any space: two spaces after
  \<open>PARAMETER\<close> give a record whose name is the empty string.
\<close>

theorem C3_empty_parameter_key:
  "outcome (str ''FROM foo'' @ [LF] @ str ''PARAMETER  x'' @ [LF])
   = Inr [(str ''model'', str ''foo''), ([], str ''x'')]"
  by code_simp

text \<open>
  C4 (the code departs from the claim). The claim: in the name state a \<open>#\<close> starts a
  comment only while the name buffer is empty, and a \<open>#\<close> after letters or digits
  makes \<open>Parse\<close> fail. The \<open>#\<close> case of \<open>stateName\<close> has no test of the buffer,
  unlike the space and newline cases next to it: the line \<open>ABC#x\<close> followed by a
  newline is dropped without an error. The same line at the end of the input fails
  with "missing value for [ABC]", and so does \<open>ABC\<close> followed by a newline.
\<close>

theorem C4_hash_after_letters_is_no_error:
  "outcome (str ''FROM foo'' @ [LF] @ str ''ABC#x'' @ [LF]) = Inr [(str ''model'', str ''foo'')] \<and>
   outcome (str ''FROM foo'' @ [LF] @ str ''ABC#x'') = Inl (MissingValue (str ''ABC'')) \<and>
   outcome (str ''FROM foo'' @ [LF] @ str ''ABC'' @ [LF]) = Inl (MissingValue (str ''ABC''))"
  by code_simp

text \<open>
  C5 (the code departs from the claim). The claim: a \<open>MESSAGE\<close> line with a valid role
  yields the record \<open>(message, role ^ ": " ^ rest of the line)\<close>. At a newline
  \<open>stateArgs\<close> appends the buffer to the value (\<open>cmd.Args += b.String()\<close>), which
  keeps the role; at the end of the input the trailing-buffer code assigns it
  (\<open>cmd.Args = b.String()\<close>), which loses the role.
\<close>

theorem C5_role_lost_at_end_of_input:
  "outcome (str ''FROM foo'' @ [LF] @ str ''MESSAGE user hi'')
   = Inr [(str ''model'', str ''foo''), (str ''message'', str ''hi'')] \<and>
   outcome (str ''FROM foo'' @ [LF] @ str ''MESSAGE user hi'' @ [LF])
   = Inr [(str ''model'', str ''foo''), (str ''message'', str ''user: hi'')]"
  by code_simp

text \<open>
  C6. When the scanner is in the name, parameter-key or message-role state, the token
  read so far is not empty, and a newline or the end of the input comes next, \<open>Parse\<close>
  fails with "missing value for [token]", the token being the buffer as read: what
  the buffer held after \<open>pre\<close>, followed by the token runes \<open>tok\<close> read since.
\<close>

theorem C6_missing_value:
  assumes "loop init pre = Inr v"
    and "var_s v = stateName \<or> var_s v = stateParameter \<or> var_s v = stateMessage"
    and "\<forall>r\<in>set tok. tokenRune (var_s v) r"
    and "var_b v @ tok \<noteq> []"
    and "newline nl"
  shows "Parse (pre @ tok) = Inl (MissingValue (var_b v @ tok)) \<and>
         Parse (pre @ tok @ nl # rest) = Inl (MissingValue (var_b v @ tok))"
proof -
  define w where "w = v\<lparr>var_b := var_b v @ tok,
                        var_cmd := (var_cmd v)\<lparr>Buffer := Buffer (var_cmd v) @ tok\<rparr>\<rparr>"
  have run: "loop init (pre @ tok) = Inr w"
    using assms(1,3) by (simp add: loop_append loop_token w_def)
  have s: "var_s w = stateName \<or> var_s w = stateParameter \<or> var_s w = stateMessage"
    and b: "var_b w = var_b v @ tok" "var_b w \<noteq> []"
    using assms(2,4) by (simp_all add: w_def)
  have "trailing w = Inl (MissingValue (var_b w))"
    using s b(2) by (rule trailing_missing)
  then have eof: "Parse (pre @ tok) = Inl (MissingValue (var_b v @ tok))"
    by (simp add: Parse_def run b(1))
  have "step w nl = Inl (MissingValue (var_b w))"
    using s b(2) assms(5) by (rule step_newline_missing)
  moreover have "loop init ((pre @ tok) @ nl # rest)
                 = (case step w nl of Inl e \<Rightarrow> Inl e | Inr v' \<Rightarrow> loop v' rest)"
    using loop_append_Inr [OF run, of "nl # rest"] by simp
  ultimately have "Parse (pre @ tok @ nl # rest) = Inl (MissingValue (var_b v @ tok))"
    by (simp add: Parse_def b(1))
  with eof show ?thesis by simp
qed

text \<open>The test case \<open>TestParserMissingValue\<close> of the repository, with and without the last newline.\<close>

theorem C6_missing_value_witness:
  "Parse (str ''FROM foo'' @ [LF] @ str ''PARAMETER param1'') = Inl (MissingValue (str ''param1'')) \<and>
   Parse (str ''FROM foo'' @ [LF] @ str ''PARAMETER param1'' @ [LF]) = Inl (MissingValue (str ''param1''))"
proof -
  let ?pre = "str ''FROM foo'' @ [LF] @ str ''PARAMETER ''"
  let ?v = "\<lparr>var_s = stateParameter,
             var_cmds = [\<lparr>Name = str ''model'', Args = str ''foo'', Buffer = str ''FROM foo'' @ [LF]\<rparr>],
             var_cmd = \<lparr>Name = str ''parameter'', Args = [], Buffer = str ''PARAMETER ''\<rparr>,
             var_b = []\<rparr>"
  have 1: "loop init ?pre = Inr ?v" by code_simp
  have 2: "\<forall>r\<in>set (str ''param1''). tokenRune (var_s ?v) r"
    by (simp add: str_def alpha_def number_def)
  have 3: "newline LF" by (simp add: newline_def)
  show ?thesis
    using C6_missing_value [OF 1 _ 2 _ 3, of "[]"] by (simp add: str_def)
qed

text \<open>
  C7. \<open>Parse\<close> fails with "no FROM line" exactly when the loop and the
  trailing-buffer code have finished without an error and no command of the list they
  built is named \<open>model\<close>; and it returns a list exactly when that list is the whole
  list they built and one of its commands is named \<open>model\<close>. An error result carries
  no list.
\<close>

theorem C7_no_FROM_line:
  "(Parse input = Inl NoFromLine \<longleftrightarrow>
      (\<exists>v cs. loop init input = Inr v \<and> trailing v = Inr cs \<and> (\<forall>c\<in>set cs. Name c \<noteq> str ''model'')))
   \<and> (Parse input = Inr cmds \<longleftrightarrow>
      (\<exists>v. loop init input = Inr v \<and> trailing v = Inr cmds \<and> (\<exists>c\<in>set cmds. Name c = str ''model'')))"
  using loop_not_NoFromLine [of init input] trailing_not_NoFromLine
  by (auto simp: Parse_def checkFrom_iff split: sum.splits)

theorem C7_no_FROM_line_witness:
  "Parse (str ''PARAMETER k v'' @ [LF]) = Inl NoFromLine"
proof -
  let ?v = "\<lparr>var_s = stateName,
             var_cmds = [\<lparr>Name = str ''k'', Args = str ''v'', Buffer = str ''PARAMETER k v'' @ [LF]\<rparr>],
             var_cmd = emptyCommand, var_b = []\<rparr>"
  have 1: "loop init (str ''PARAMETER k v'' @ [LF]) = Inr ?v" by code_simp
  have 2: "trailing ?v = Inr (var_cmds ?v)" by (simp add: trailing_def)
  have 3: "\<forall>c\<in>set (var_cmds ?v). Name c \<noteq> str ''model''" by (simp add: str_def)
  show ?thesis
    using C7_no_FROM_line [of "str ''PARAMETER k v'' @ [LF]" "[]"] 1 2 3 by blast
qed


text \<open>
  C8. Directive keywords are case-insensitive. (1) Every command of a successful result
  has a name without upper-case letters. (2) At the space or tab that ends a keyword
  read from the start of a line, the name of the command is the lower-cased keyword,
  with \<open>from\<close> replaced by \<open>model\<close>, and the scanner goes to \<open>stateParameter\<close>
  when the lower-cased keyword is \<open>parameter\<close>, to \<open>stateMessage\<close> when it is
  \<open>message\<close>, to \<open>stateArgs\<close> otherwise. (3) A line of any other keyword, a space or
  tab and a value \<open>x\<close> adds the record (lower-cased keyword, or \<open>model\<close> for
  \<open>from\<close>; \<open>x\<close>). (4) A line of PARAMETER in any letter case, a key and a value
  adds the record (lower-cased key, value). (5) A line of MESSAGE in any letter case, a
  valid role and a value adds the record (\<open>message\<close>, role, colon, space, value).
  (6) A document made only of FROM in any letter case, a space or tab and a non-empty
  value \<open>x\<close>, with or without a newline at its end, parses to the single record
  \<open>(model, x)\<close>.
\<close>

theorem C8_keywords_lowercased:
  "(\<forall>cmds. Parse input = Inr cmds \<longrightarrow> (\<forall>c\<in>set cmds. ToLower (Name c) = Name c)) \<and>
   (loop init pre = Inr v \<and> var_s v = stateName \<and> var_b v = [] \<and>
    anykw \<noteq> [] \<and> (\<forall>r\<in>set anykw. alpha r \<or> number r) \<and> space sp \<longrightarrow>
      (\<exists>v'. loop init (pre @ anykw @ [sp]) = Inr v' \<and>
            var_s v' = (if ToLower anykw = str ''parameter'' then stateParameter
                        else if ToLower anykw = str ''message'' then stateMessage
                        else stateArgs) \<and>
            Name (var_cmd v') = canonical anykw \<and> var_b v' = [] \<and> var_cmds v' = var_cmds v)) \<and>
   (loop init pre = Inr v \<and> var_s v = stateName \<and> var_b v = [] \<and>
    word \<noteq> [] \<and> (\<forall>r\<in>set word. alpha r \<or> number r) \<and>
    ToLower word \<noteq> str ''parameter'' \<and> ToLower word \<noteq> str ''message'' \<and>
    space sp \<and> (\<forall>r\<in>set x. \<not> newline r) \<and> newline nl \<longrightarrow>
      (\<exists>v'. loop init (pre @ word @ sp # x @ [nl]) = Inr v' \<and>
            records (var_cmds v') = records (var_cmds v) @ [(canonical word, x)])) \<and>
   (loop init pre = Inr v \<and> var_s v = stateName \<and> var_b v = [] \<and>
    ToLower pkw = str ''parameter'' \<and> space sp \<and>
    (\<forall>r\<in>set key. alpha r \<or> number r \<or> r = UNDERSCORE) \<and> space sep \<and>
    (\<forall>r\<in>set x. \<not> newline r) \<and> newline nl \<longrightarrow>
      (\<exists>v'. loop init (pre @ pkw @ sp # key @ sep # x @ [nl]) = Inr v' \<and>
            records (var_cmds v') = records (var_cmds v) @ [(ToLower key, x)])) \<and>
   (loop init pre = Inr v \<and> var_s v = stateName \<and> var_b v = [] \<and>
    ToLower mkw = str ''message'' \<and> space sp \<and> isValidRole role \<and> space sep \<and>
    (\<forall>r\<in>set x. \<not> newline r) \<and> newline nl \<longrightarrow>
      (\<exists>v'. loop init (pre @ mkw @ sp # role @ sep # x @ [nl]) = Inr v' \<and>
            records (var_cmds v') = records (var_cmds v) @ [(str ''message'', role @ str '': '' @ x)])) \<and>
   (ToLower kw = str ''from'' \<and> space sp \<and> x \<noteq> [] \<and> (\<forall>r\<in>set x. \<not> newline r) \<and> newline nl \<longrightarrow>
      outcome (kw @ sp # x) = Inr [(str ''model'', x)] \<and>
      outcome (kw @ sp # x @ [nl]) = Inr [(str ''model'', x)])"
proof (intro conjI allI impI; (elim conjE)?)
  fix cmds assume "Parse input = Inr cmds"
  then show "\<forall>c\<in>set cmds. ToLower (Name c) = Name c"
    using Parse_lowNames [of input cmds] by (simp add: list_all_iff)
next
  assume a: "loop init pre = Inr v" "var_s v = stateName" "var_b v = []" "anykw \<noteq> []"
    "\<forall>r\<in>set anykw. alpha r \<or> number r" "space sp"
  show "\<exists>v'. loop init (pre @ anykw @ [sp]) = Inr v' \<and>
            var_s v' = (if ToLower anykw = str ''parameter'' then stateParameter
                        else if ToLower anykw = str ''message'' then stateMessage
                        else stateArgs) \<and>
            Name (var_cmd v') = canonical anykw \<and> var_b v' = [] \<and> var_cmds v' = var_cmds v"
    using loop_append_Inr [OF a(1), of "anykw @ [sp]"] loop_keyword_any_case [OF a(2-6)]
    by simp
next
  assume a: "loop init pre = Inr v" "var_s v = stateName" "var_b v = []" "word \<noteq> []"
    "\<forall>r\<in>set word. alpha r \<or> number r" "ToLower word \<noteq> str ''parameter''"
    "ToLower word \<noteq> str ''message''" "space sp" "\<forall>r\<in>set x. \<not> newline r" "newline nl"
  have "Args (var_cmd v) = []"
    using a(1,2) by (rule init_name_args)
  from loop_directive_line [OF a(2,3) this a(4-10)]
  have "loop v (word @ sp # x @ [nl])
        = Inr \<lparr>var_s = stateName,
               var_cmds = var_cmds v @ [\<lparr>Name = canonical word, Args = x,
                                         Buffer = Buffer (var_cmd v) @ word @ sp # x @ [nl]\<rparr>],
               var_cmd = emptyCommand, var_b = []\<rparr>" .
  then show "\<exists>v'. loop init (pre @ word @ sp # x @ [nl]) = Inr v' \<and>
            records (var_cmds v') = records (var_cmds v) @ [(canonical word, x)]"
    using loop_append_Inr [OF a(1), of "word @ sp # x @ [nl]"] by (simp add: records_def)
next
  assume a: "loop init pre = Inr v" "var_s v = stateName" "var_b v = []"
    "ToLower pkw = str ''parameter''" "space sp"
    "\<forall>r\<in>set key. alpha r \<or> number r \<or> r = UNDERSCORE" "space sep"
    "\<forall>r\<in>set x. \<not> newline r" "newline nl"
  have "Args (var_cmd v) = []"
    using a(1,2) by (rule init_name_args)
  from parameter_line [OF a(2,3) this a(4-9)]
  obtain v' where "loop v (pkw @ sp # key @ sep # x @ [nl]) = Inr v'"
    and "records (var_cmds v') = records (var_cmds v) @ [(ToLower key, x)]"
    by blast
  then show "\<exists>v'. loop init (pre @ pkw @ sp # key @ sep # x @ [nl]) = Inr v' \<and>
            records (var_cmds v') = records (var_cmds v) @ [(ToLower key, x)]"
    using loop_append_Inr [OF a(1), of "pkw @ sp # key @ sep # x @ [nl]"] by simp
next
  assume a: "loop init pre = Inr v" "var_s v = stateName" "var_b v = []"
    "ToLower mkw = str ''message''" "space sp" "isValidRole role" "space sep"
    "\<forall>r\<in>set x. \<not> newline r" "newline nl"
  have "Args (var_cmd v) = []"
    using a(1,2) by (rule init_name_args)
  from message_line [OF a(2,3) this a(4-9)]
  obtain v' where "loop v (mkw @ sp # role @ sep # x @ [nl]) = Inr v'"
    and "records (var_cmds v') = records (var_cmds v) @ [(str ''message'', role @ str '': '' @ x)]"
    by blast
  then show "\<exists>v'. loop init (pre @ mkw @ sp # role @ sep # x @ [nl]) = Inr v' \<and>
            records (var_cmds v') = records (var_cmds v) @ [(str ''message'', role @ str '': '' @ x)]"
    using loop_append_Inr [OF a(1), of "mkw @ sp # role @ sep # x @ [nl]"] by simp
next
  assume a: "ToLower kw = str ''from''" "space sp" "x \<noteq> []" "\<forall>r\<in>set x. \<not> newline r" "newline nl"
  have k: "kw \<noteq> []" "\<forall>r\<in>set kw. alpha r \<or> number r"
    "ToLower kw \<noteq> str ''parameter''" "ToLower kw \<noteq> str ''message''"
    using ToLower_from_alpha [OF a(1)] a(1) by (auto simp: str_def)
  have i: "var_s init = stateName" "var_b init = []" "Args (var_cmd init) = []"
    by (simp_all add: init_def emptyCommand_def)
  have "loop init (kw @ sp # x)
        = Inr \<lparr>var_s = stateArgs, var_cmds = var_cmds init,
               var_cmd = (var_cmd init)\<lparr>Name := canonical kw, Buffer := Buffer (var_cmd init) @ kw @ sp # x\<rparr>,
               var_b = x\<rparr>"
    using i(1,2) k a(2,4) by (rule loop_directive_open)
  then show "outcome (kw @ sp # x) = Inr [(str ''model'', x)]"
    using a(1,3) by (simp add: outcome_def Parse_def trailing_def init_def records_def emptyCommand_def)
  have "loop init (kw @ sp # x @ [nl])
        = Inr \<lparr>var_s = stateName,
               var_cmds = var_cmds init @ [\<lparr>Name = canonical kw, Args = x,
                                         Buffer = Buffer (var_cmd init) @ kw @ sp # x @ [nl]\<rparr>],
               var_cmd = emptyCommand, var_b = []\<rparr>"
    using i k a(2,4,5) by (rule loop_directive_line)
  then show "outcome (kw @ sp # x @ [nl]) = Inr [(str ''model'', x)]"
    using a(1) by (simp add: outcome_def Parse_def trailing_def init_def records_def)
qed

theorem C8_keywords_lowercased_witness:
  "outcome (str ''fRoM'' @ SPACE # str ''x'') = Inr [(str ''model'', str ''x'')] \<and>
   outcome (str ''fRoM'' @ SPACE # str ''x'' @ [LF]) = Inr [(str ''model'', str ''x'')] \<and>
   (\<exists>v'. loop init ((str ''FROM foo'' @ [LF]) @ str ''PaRaMeTeR'' @ [SPACE]) = Inr v' \<and>
         var_s v' = stateParameter) \<and>
   (\<exists>v'. loop init ((str ''FROM foo'' @ [LF]) @ str ''License'' @ SPACE # str ''x'' @ [LF]) = Inr v' \<and>
         records (var_cmds v') = [(str ''model'', str ''foo''), (str ''license'', str ''x'')]) \<and>
   (\<exists>v'. loop init ((str ''FROM foo'' @ [LF]) @ str ''Parameter'' @ SPACE # str ''Top_K'' @ TAB # str ''x'' @ [LF]) = Inr v' \<and>
         records (var_cmds v') = [(str ''model'', str ''foo''), (str ''top_k'', str ''x'')]) \<and>
   (\<exists>v'. loop init ((str ''FROM foo'' @ [LF]) @ str ''Message'' @ SPACE # str ''user'' @ TAB # str ''x'' @ [LF]) = Inr v' \<and>
         records (var_cmds v') = [(str ''model'', str ''foo''), (str ''message'', str ''user: x'')])"
proof -
  let ?pre = "str ''FROM foo'' @ [LF]"
  let ?v = "\<lparr>var_s = stateName,
             var_cmds = [\<lparr>Name = str ''model'', Args = str ''foo'', Buffer = str ''FROM foo'' @ [LF]\<rparr>],
             var_cmd = emptyCommand, var_b = []\<rparr>"
  note T = C8_keywords_lowercased [where input = "[]" and pre = ?pre and v = ?v and anykw = "str ''PaRaMeTeR''"
      and word = "str ''License''" and sp = SPACE and sep = TAB and x = "str ''x''" and nl = LF
      and pkw = "str ''Parameter''" and key = "str ''Top_K''"
      and mkw = "str ''Message''" and role = "str ''user''" and kw = "str ''fRoM''"]
  have 1: "loop init ?pre = Inr ?v" by code_simp
  have 2: "\<forall>r\<in>set (str ''License''). alpha r \<or> number r"
    "\<forall>r\<in>set (str ''PaRaMeTeR''). alpha r \<or> number r"
    "\<forall>r\<in>set (str ''Top_K''). alpha r \<or> number r \<or> r = UNDERSCORE"
    by (simp_all add: str_def alpha_def UNDERSCORE_def)
  have 3: "ToLower (str ''License'') = str ''license''" "ToLower (str ''fRoM'') = str ''from''"
    "ToLower (str ''PaRaMeTeR'') = str ''parameter''" "ToLower (str ''Parameter'') = str ''parameter''"
    "ToLower (str ''Message'') = str ''message''" "ToLower (str ''Top_K'') = str ''top_k''"
    by (simp_all add: ToLower_def toLowerRune_def str_def)
  have 4: "space SPACE" "space TAB" "newline LF" "\<forall>r\<in>set (str ''x''). \<not> newline r"
    "isValidRole (str ''user'')"
    by (simp_all add: space_def newline_def str_def CR_def LF_def isValidRole_def)
  have 5: "str ''license'' \<noteq> str ''parameter''" "str ''license'' \<noteq> str ''message''"
    "str ''license'' \<noteq> str ''from''" "str ''License'' \<noteq> []" "str ''x'' \<noteq> []"
    "str ''PaRaMeTeR'' \<noteq> []" "str ''parameter'' \<noteq> str ''from''"
    by (simp_all add: str_def)
  have 6: "str ''user'' @ str '': '' @ str ''x'' = str ''user: x''"
    by (simp add: str_def)
  show ?thesis
    using T 1 2 4 5
    by (simp add: 3 6 records_def) blast
qed

text \<open>
  C9. (1) When the input ends in \<open>stateArgs\<close> with an empty buffer, the pending
  command is dropped: the result is that of the FROM check on the commands completed
  before, neither a record nor an error for the pending one; a newline at that place
  appends the pending command, with the value it holds so far. (2) A line made of a
  directive keyword (other than PARAMETER and MESSAGE) and one space or tab, on which
  the input ends, is such a case: nothing is left of it, while the same line followed
  by a newline adds a record with the empty value.
\<close>

theorem C9_pending_value_dropped_at_end_of_input:
  "(loop init input = Inr w \<and> var_s w = stateArgs \<and> var_b w = [] \<and> newline nl \<longrightarrow>
      Parse input = checkFrom (var_cmds w) (var_cmds w) \<and>
      Parse (input @ [nl])
      = (let cmds = var_cmds w @ [(var_cmd w)\<lparr>Buffer := Buffer (var_cmd w) @ [nl]\<rparr>]
         in checkFrom cmds cmds)) \<and>
   (loop init pre = Inr v \<and> var_s v = stateName \<and> var_b v = [] \<and>
    kw \<noteq> [] \<and> (\<forall>r\<in>set kw. alpha r \<or> number r) \<and>
    ToLower kw \<noteq> str ''parameter'' \<and> ToLower kw \<noteq> str ''message'' \<and>
    space sp \<and> newline nl \<longrightarrow>
      Parse (pre @ kw @ [sp]) = checkFrom (var_cmds v) (var_cmds v) \<and>
      Parse (pre @ kw @ [sp] @ [nl])
      = (let cmds = var_cmds v @ [\<lparr>Name = canonical kw, Args = [],
                                      Buffer = Buffer (var_cmd v) @ kw @ [sp] @ [nl]\<rparr>]
         in checkFrom cmds cmds))"
proof (intro conjI impI; elim conjE)
  assume a: "loop init input = Inr w" "var_s w = stateArgs" "var_b w = []" "newline nl"
  show "Parse input = checkFrom (var_cmds w) (var_cmds w)"
    using a(1,3) by (simp add: Parse_def trailing_def)
  have "step w nl
        = Inr \<lparr>var_s = stateName,
               var_cmds = var_cmds w @ [(var_cmd w)\<lparr>Buffer := Buffer (var_cmd w) @ [nl]\<rparr>],
               var_cmd = emptyCommand, var_b = []\<rparr>"
    using a(2,3,4) by (cases w) (simp add: step_def writeCmd_def)
  then show "Parse (input @ [nl])
      = (let cmds = var_cmds w @ [(var_cmd w)\<lparr>Buffer := Buffer (var_cmd w) @ [nl]\<rparr>]
         in checkFrom cmds cmds)"
    using loop_append_Inr [OF a(1), of "[nl]"] by (simp add: Parse_def trailing_def Let_def)
next
  assume a: "loop init pre = Inr v" "var_s v = stateName" "var_b v = []" "kw \<noteq> []"
    "\<forall>r\<in>set kw. alpha r \<or> number r" "ToLower kw \<noteq> str ''parameter''"
    "ToLower kw \<noteq> str ''message''" "space sp" "newline nl"
  have args: "Args (var_cmd v) = []"
    using a(1,2) by (rule init_name_args)
  have "loop v (kw @ [sp])
        = Inr \<lparr>var_s = stateArgs, var_cmds = var_cmds v,
               var_cmd = (var_cmd v)\<lparr>Name := canonical kw, Buffer := Buffer (var_cmd v) @ kw @ [sp]\<rparr>,
               var_b = []\<rparr>"
    using a(2-8) by (rule loop_keyword)
  then show "Parse (pre @ kw @ [sp]) = checkFrom (var_cmds v) (var_cmds v)"
    using loop_append_Inr [OF a(1), of "kw @ [sp]"] by (simp add: Parse_def trailing_def)
  have "loop v (kw @ sp # [] @ [nl])
        = Inr \<lparr>var_s = stateName,
               var_cmds = var_cmds v @ [\<lparr>Name = canonical kw, Args = [],
                                         Buffer = Buffer (var_cmd v) @ kw @ sp # [] @ [nl]\<rparr>],
               var_cmd = emptyCommand, var_b = []\<rparr>"
    using a(2,3) args a(4-8) _ a(9) by (rule loop_directive_line) simp
  then show "Parse (pre @ kw @ [sp] @ [nl])
         = (let cmds = var_cmds v @ [\<lparr>Name = canonical kw, Args = [],
                                         Buffer = Buffer (var_cmd v) @ kw @ [sp] @ [nl]\<rparr>]
            in checkFrom cmds cmds)"
    using loop_append_Inr [OF a(1), of "kw @ [sp] @ [nl]"]
    by (simp add: Parse_def trailing_def Let_def)
qed

theorem C9_pending_value_dropped_witness:
  "outcome (str ''FROM foo'' @ [LF] @ str ''TEMPLATE'' @ [SPACE]) = Inr [(str ''model'', str ''foo'')] \<and>
   outcome (str ''FROM foo'' @ [LF] @ str ''TEMPLATE'' @ [SPACE] @ [LF])
   = Inr [(str ''model'', str ''foo''), (str ''template'', [])] \<and>
   outcome (str ''FROM foo'' @ [LF] @ str ''MESSAGE user '') = Inr [(str ''model'', str ''foo'')] \<and>
   outcome ((str ''FROM foo'' @ [LF] @ str ''MESSAGE user '') @ [LF])
   = Inr [(str ''model'', str ''foo''), (str ''message'', str ''user: '')]"
proof -
  let ?pre = "str ''FROM foo'' @ [LF]"
  let ?v = "\<lparr>var_s = stateName,
             var_cmds = [\<lparr>Name = str ''model'', Args = str ''foo'', Buffer = str ''FROM foo'' @ [LF]\<rparr>],
             var_cmd = emptyCommand, var_b = []\<rparr>"
  let ?input = "str ''FROM foo'' @ [LF] @ str ''MESSAGE user ''"
  let ?w = "\<lparr>var_s = stateArgs,
             var_cmds = [\<lparr>Name = str ''model'', Args = str ''foo'', Buffer = str ''FROM foo'' @ [LF]\<rparr>],
             var_cmd = \<lparr>Name = str ''message'', Args = str ''user: '', Buffer = str ''MESSAGE user ''\<rparr>,
             var_b = []\<rparr>"
  have 0: "loop init ?input = Inr ?w" by code_simp
  have 1: "loop init ?pre = Inr ?v" by code_simp
  have 2: "\<forall>r\<in>set (str ''TEMPLATE''). alpha r \<or> number r"
    by (simp add: str_def alpha_def)
  have 3: "ToLower (str ''TEMPLATE'') = str ''template''"
    by (simp add: ToLower_def toLowerRune_def str_def)
  have 4: "space SPACE" "newline LF"
    by (simp_all add: space_def newline_def)
  have 5: "str ''template'' \<noteq> str ''parameter''" "str ''template'' \<noteq> str ''message''"
    "str ''template'' \<noteq> str ''from''" "str ''TEMPLATE'' \<noteq> []"
    by (simp_all add: str_def)
  have m: "str ''model'' = str ''model''" by simp
  from C9_pending_value_dropped_at_end_of_input [of ?input ?w LF ?pre ?v "str ''TEMPLATE''" SPACE] 0 4
  have g: "Parse ?input = checkFrom (var_cmds ?w) (var_cmds ?w) \<and>
      Parse (?input @ [LF])
      = (let cmds = var_cmds ?w @ [(var_cmd ?w)\<lparr>Buffer := Buffer (var_cmd ?w) @ [LF]\<rparr>]
         in checkFrom cmds cmds)"
    by simp
  from C9_pending_value_dropped_at_end_of_input [of ?input ?w LF ?pre ?v "str ''TEMPLATE''" SPACE] 1 2 4 5
  have l: "Parse (?pre @ str ''TEMPLATE'' @ [SPACE]) = checkFrom (var_cmds ?v) (var_cmds ?v) \<and>
      Parse (?pre @ str ''TEMPLATE'' @ [SPACE] @ [LF])
      = (let cmds = var_cmds ?v @ [\<lparr>Name = canonical (str ''TEMPLATE''), Args = [],
                                      Buffer = Buffer (var_cmd ?v) @ str ''TEMPLATE'' @ [SPACE] @ [LF]\<rparr>]
         in checkFrom cmds cmds)"
    by (simp add: 3)
  show ?thesis
    using g l by (simp add: 3 5 outcome_def records_def Let_def)
qed

text \<open>
  C10. Replacing every LF of a document by CR LF does not change what \<open>Parse\<close>
  returns: the same \<open>(Name, Args)\<close> records in the same order, or the same error.
  The CR ends the line as the LF did, and the LF that follows is read in \<open>stateName\<close>
  with an empty buffer, where it does nothing. This holds for every document, also one
  that already has CRs.
\<close>

theorem C10_crlf_same_outcome: "outcome (crlf input) = outcome input"
proof -
  have "sameVars init init" by (simp add: sameVars_def)
  moreover have "var_s init \<noteq> stateMultiline" by (simp add: init_def)
  ultimately have rel: "rel_sum (=) sameVars (loop init input) (loop init (crlf input))"
    by (rule loop_crlf)
  show ?thesis
  proof (cases "loop init input")
    case (Inl e)
    then have "loop init (crlf input) = Inl e"
      using rel by (cases "loop init (crlf input)") simp_all
    then show ?thesis by (simp add: outcome_def Parse_def Inl)
  next
    case (Inr v)
    then obtain w where w: "loop init (crlf input) = Inr w" and s: "sameVars v w"
      using rel by (cases "loop init (crlf input)") simp_all
    show ?thesis
      using finish_sameVars [OF s] by (simp add: outcome_def Parse_def Inr w)
  qed
qed

theorem C10_crlf_same_outcome_witness:
  "outcome (str ''FROM foo'' @ [CR, LF] @ str ''PARAMETER k v'' @ [CR, LF])
   = outcome (str ''FROM foo'' @ [LF] @ str ''PARAMETER k v'' @ [LF])"
  using C10_crlf_same_outcome [of "str ''FROM foo'' @ [LF] @ str ''PARAMETER k v'' @ [LF]"]
  by (simp add: str_def LF_def CR_def)

end
